theory Spec2Isabelle
  imports Main "HOL-Library.Word"
begin

unbundle bit_operations_syntax

section \<open>The LED strip sketch \<^verbatim>\<open>Deksel/ledstrip/ledstrip.ino\<close>\<close>

text \<open>
  The sketch drives four NeoPixel strips from a line-oriented serial command stream.
  Its global objects (four strips, the current choice, the serial port) become one
  record that every function takes and returns. The library classes the sketch uses
  (\<^verbatim>\<open>Adafruit_NeoPixel\<close>, \<^verbatim>\<open>String\<close>, \<^verbatim>\<open>Serial\<close>) are modelled by what their
  documentation says of the calls the sketch makes:
  \<^item> a strip is its pixel buffer (what \<^verbatim>\<open>setPixelColor\<close> and \<^verbatim>\<open>clear\<close> write) and the
    colours latched onto the LEDs by the last \<^verbatim>\<open>show\<close>; colours are the packed 32-bit
    values the sketch passes, before the library scales them by the brightness;
  \<^item> a \<^verbatim>\<open>String\<close> is its bytes, as many as its length says, NUL bytes included; the C
    functions it is built on (\<^verbatim>\<open>strcmp\<close> behind \<^verbatim>\<open>==\<close>, the scan of \<^verbatim>\<open>toLowerCase\<close>) read
    the buffer as a C string and stop at its first NUL byte;
  \<^item> the serial port is the bytes received and not yet read, and the bytes written.
\<close>

subsection \<open>Constants and global objects (lines 3--17)\<close>

definition PIN1 :: nat where "PIN1 = 7"
definition PIN2 :: nat where "PIN2 = 4"
definition PIN3 :: nat where "PIN3 = 5"
definition PIN4 :: nat where "PIN4 = 6"

definition NUM_LEDS :: nat where "NUM_LEDS = 5"

datatype Choice = NONE | PMD | REST | KARTON

record strip =
  numLEDs :: nat
  pin :: nat
  pixels :: "32 word list"
  shown :: "32 word list"

record state =
  strip1 :: strip
  strip2 :: strip
  strip3 :: strip
  strip4 :: strip
  currentChoice :: Choice
  serial_rx :: string
  serial_tx :: string

subsection \<open>The strip driver\<close>

text \<open>The constructor allocates \<open>n\<close> pixels, all zero; nothing is lit yet.\<close>

definition Adafruit_NeoPixel :: "nat \<Rightarrow> nat \<Rightarrow> strip" where
  "Adafruit_NeoPixel n p =
     \<lparr>numLEDs = n, pin = p, pixels = replicate n 0, shown = replicate n 0\<rparr>"

text \<open>\<^verbatim>\<open>Color(r, g, b)\<close> packs three bytes as \<^verbatim>\<open>(r << 16) | (g << 8) | b\<close>.\<close>

definition Color :: "8 word \<Rightarrow> 8 word \<Rightarrow> 8 word \<Rightarrow> 32 word" where
  "Color r g b = push_bit 16 (ucast r) OR push_bit 8 (ucast g) OR ucast b"

text \<open>\<^verbatim>\<open>setPixelColor\<close> ignores an index outside the strip.\<close>

definition setPixelColor :: "nat \<Rightarrow> 32 word \<Rightarrow> strip \<Rightarrow> strip" where
  "setPixelColor n c st =
     (if n < numLEDs st then st\<lparr>pixels := (pixels st)[n := c]\<rparr> else st)"

definition clear :: "strip \<Rightarrow> strip" where
  "clear st = st\<lparr>pixels := map (\<lambda>_. 0) (pixels st)\<rparr>"

definition show_strip :: "strip \<Rightarrow> strip" where
  "show_strip st = st\<lparr>shown := pixels st\<rparr>"

subsection \<open>The serial port and the string operations\<close>

definition Serial_available :: "state \<Rightarrow> nat" where
  "Serial_available s = length (serial_rx s)"

text \<open>
  \<^verbatim>\<open>readStringUntil\<close> consumes bytes up to and including the terminator and returns
  those before it; when the terminator never comes it returns, at its timeout, all
  the bytes received. \<open>serial_rx\<close> holds the bytes that arrive before the read ends.
\<close>

definition Serial_readStringUntil :: "char \<Rightarrow> state \<Rightarrow> string \<times> state" where
  "Serial_readStringUntil t s =
     (takeWhile (\<lambda>c. c \<noteq> t) (serial_rx s),
      s\<lparr>serial_rx := drop 1 (dropWhile (\<lambda>c. c \<noteq> t) (serial_rx s))\<rparr>)"

definition Serial_print :: "string \<Rightarrow> state \<Rightarrow> state" where
  "Serial_print m s = s\<lparr>serial_tx := serial_tx s @ m\<rparr>"

definition Serial_println :: "string \<Rightarrow> state \<Rightarrow> state" where
  "Serial_println m s = s\<lparr>serial_tx := serial_tx s @ m @ [CHR 0x0D, CHR 0x0A]\<rparr>"

text \<open>C's \<^verbatim>\<open>isspace\<close> and \<^verbatim>\<open>tolower\<close> in the default locale.\<close>

definition isspace :: "char \<Rightarrow> bool" where
  "isspace c \<longleftrightarrow> c \<in> set [CHR 0x20, CHR 0x09, CHR 0x0A, CHR 0x0B, CHR 0x0C, CHR 0x0D]"

definition tolower :: "char \<Rightarrow> char" where
  "tolower c =
     (let n = (of_char c :: nat) in if 65 \<le> n \<and> n \<le> 90 then char_of (n + 32) else c)"

text \<open>\<^verbatim>\<open>String::trim\<close> removes leading and trailing whitespace.\<close>

definition trim :: "string \<Rightarrow> string" where
  "trim s = rev (dropWhile isspace (rev (dropWhile isspace s)))"

text \<open>What a C function sees of a buffer: the bytes before the first NUL byte.\<close>

definition c_str :: "string \<Rightarrow> string" where
  "c_str s = takeWhile (\<lambda>c. c \<noteq> CHR 0x00) s"

text \<open>
  \<^verbatim>\<open>String::toLowerCase\<close> walks the buffer up to the first NUL byte; what lies behind
  one stays as it is.
\<close>

definition toLowerCase :: "string \<Rightarrow> string" where
  "toLowerCase s = map tolower (c_str s) @ dropWhile (\<lambda>c. c \<noteq> CHR 0x00) s"

text \<open>
  \<^verbatim>\<open>String == const char*\<close> is \<^verbatim>\<open>strcmp(buffer, cstr) == 0\<close>: both sides are compared as
  C strings.
\<close>

definition String_equals :: "string \<Rightarrow> string \<Rightarrow> bool" where
  "String_equals s cstr \<longleftrightarrow> c_str s = c_str cstr"

subsection \<open>\<^verbatim>\<open>fillStrip\<close> and \<^verbatim>\<open>clearAll\<close> (lines 102--112)\<close>

function fillStrip_loop :: "nat \<Rightarrow> strip \<Rightarrow> 32 word \<Rightarrow> strip" where
  "fillStrip_loop i st color =
     (if i < NUM_LEDS then fillStrip_loop (i + 1) (setPixelColor i color st) color else st)"
  by pat_completeness auto
termination
  by (relation "measure (\<lambda>(i, st, color). NUM_LEDS - i)") auto

declare fillStrip_loop.simps [simp del]

definition fillStrip :: "strip \<Rightarrow> 32 word \<Rightarrow> strip" where
  "fillStrip st color = show_strip (fillStrip_loop 0 st color)"

definition clearAll :: "state \<Rightarrow> state" where
  "clearAll s =
     s\<lparr>strip1 := show_strip (clear (strip1 s)),
       strip2 := show_strip (clear (strip2 s)),
       strip3 := show_strip (clear (strip3 s)),
       strip4 := show_strip (clear (strip4 s))\<rparr>"

subsection \<open>\<^verbatim>\<open>showChoice\<close> (lines 80--100)\<close>

definition RED :: "32 word" where "RED = Color 255 0 0"
definition GREEN :: "32 word" where "GREEN = Color 0 255 0"
definition OFF :: "32 word" where "OFF = Color 0 0 0"

definition showChoice :: "Choice \<Rightarrow> state \<Rightarrow> state" where
  "showChoice c s =
     (let c1 = (if c = NONE then OFF else RED);
          c2 = (if c = NONE then OFF else RED);
          c3 = (if c = NONE then OFF else RED);
          c4 = (if c = NONE then OFF else RED);
          c1 = (if c = PMD then GREEN else c1);
          c2 = (if c = REST then GREEN else c2);
          c3 = (if c = KARTON then GREEN else c3)
      in s\<lparr>strip1 := fillStrip (strip1 s) c1,
           strip2 := fillStrip (strip2 s) c2,
           strip3 := fillStrip (strip3 s) c3,
           strip4 := fillStrip (strip4 s) c4\<rparr>)"

subsection \<open>\<^verbatim>\<open>handleSerial\<close> (lines 44--78)\<close>

definition handleSerial :: "state \<Rightarrow> state" where
  "handleSerial s =
     (if Serial_available s = 0 then s
      else
        let (cmd, s) = Serial_readStringUntil (CHR 0x0A) s;
            cmd = trim cmd;
            cmd = toLowerCase cmd
        in
          if String_equals cmd ''pmd'' then
            Serial_println ''OK: PMD geselecteerd (strip op pin 7 wordt GROEN).''
              (s\<lparr>currentChoice := PMD\<rparr>)
          else if String_equals cmd ''restafval'' \<or> String_equals cmd ''rest'' then
            Serial_println ''OK: RESTAFVAL geselecteerd (strip op pin 4 wordt GROEN).''
              (s\<lparr>currentChoice := REST\<rparr>)
          else if String_equals cmd ''karton'' then
            Serial_println ''OK: KARTON geselecteerd (strip op pin 5 wordt GROEN).''
              (s\<lparr>currentChoice := KARTON\<rparr>)
          else if String_equals cmd ''off'' then
            Serial_println ''OK: alles uit.'' (clearAll (s\<lparr>currentChoice := NONE\<rparr>))
          else if String_equals cmd ''status'' then
            (let s = Serial_print ''Huidige keuze: '' s
             in if currentChoice s = PMD then Serial_println ''PMD'' s
                else if currentChoice s = REST then Serial_println ''RESTAFVAL'' s
                else if currentChoice s = KARTON then Serial_println ''KARTON'' s
                else Serial_println ''NONE'' s)
          else
            Serial_println
              ''Onbekend commando. Gebruik: pmd | restafval | karton | status | off'' s)"

subsection \<open>\<^verbatim>\<open>loop\<close> and \<^verbatim>\<open>setup\<close> (lines 19--42)\<close>

text \<open>One pass of \<^verbatim>\<open>loop\<close>; the closing \<^verbatim>\<open>delay(50)\<close> changes no state.\<close>

definition loop :: "state \<Rightarrow> state" where
  "loop s = (let s = handleSerial s in showChoice (currentChoice s) s)"

text \<open>
  The globals as their initialisers leave them, given the bytes waiting on the port.
\<close>

definition power_on :: "string \<Rightarrow> state" where
  "power_on rx =
     \<lparr>strip1 = Adafruit_NeoPixel NUM_LEDS PIN1,
      strip2 = Adafruit_NeoPixel NUM_LEDS PIN2,
      strip3 = Adafruit_NeoPixel NUM_LEDS PIN3,
      strip4 = Adafruit_NeoPixel NUM_LEDS PIN4,
      currentChoice = NONE,
      serial_rx = rx,
      serial_tx = []\<rparr>"

text \<open>
  \<^verbatim>\<open>setup\<close>, once the port is ready: \<^verbatim>\<open>begin\<close> and \<^verbatim>\<open>setBrightness\<close> configure the
  driver and leave buffers and choice alone, so what remains is \<^verbatim>\<open>clearAll\<close> and the
  two banner lines.
\<close>

definition setup_sketch :: "state \<Rightarrow> state" where
  "setup_sketch s =
     Serial_println ''Extra: status | off''
       (Serial_println ''Typ: pmd | restafval | karton'' (clearAll s))"

subsection \<open>Vocabulary of the statements\<close>

text \<open>
  The strip objects are built once, with \<open>NUM_LEDS\<close> pixels on a fixed pin, and no
  function of the sketch resizes or rewires them. \<open>wf_state\<close> records this; the pixel
  values themselves are left arbitrary.
\<close>

definition wf_strip :: "nat \<Rightarrow> strip \<Rightarrow> bool" where
  "wf_strip p st \<longleftrightarrow> numLEDs st = NUM_LEDS \<and> pin st = p \<and> length (pixels st) = NUM_LEDS"

definition wf_state :: "state \<Rightarrow> bool" where
  "wf_state s \<longleftrightarrow>
     wf_strip PIN1 (strip1 s) \<and> wf_strip PIN2 (strip2 s) \<and>
     wf_strip PIN3 (strip3 s) \<and> wf_strip PIN4 (strip4 s)"

text \<open>A strip shows colour \<open>c\<close> when every pixel, buffered and latched, is \<open>c\<close>.\<close>

definition lit :: "strip \<Rightarrow> 32 word \<Rightarrow> bool" where
  "lit st c \<longleftrightarrow> pixels st = replicate NUM_LEDS c \<and> shown st = replicate NUM_LEDS c"

definition strips :: "state \<Rightarrow> strip list" where
  "strips s = [strip1 s, strip2 s, strip3 s, strip4 s]"

definition strips_lit :: "state \<Rightarrow> 32 word \<Rightarrow> 32 word \<Rightarrow> 32 word \<Rightarrow> 32 word \<Rightarrow> bool" where
  "strips_lit s a b c d \<longleftrightarrow>
     lit (strip1 s) a \<and> lit (strip2 s) b \<and> lit (strip3 s) c \<and> lit (strip4 s) d"

text \<open>The line terminator written by \<^verbatim>\<open>println\<close>, and decimal numerals.\<close>

definition CRLF :: string where
  "CRLF = [CHR 0x0D, CHR 0x0A]"

fun decimal :: "nat \<Rightarrow> string" where
  "decimal n =
     (if n < 10 then [char_of (48 + n)] else decimal (n div 10) @ [char_of (48 + n mod 10)])"

declare decimal.simps [simp del]

section \<open>Auxiliary facts\<close>

subsection \<open>Colours, strips and strings\<close>

lemma RED_val: "RED = 0xFF0000" by (simp add: RED_def Color_def)
lemma GREEN_val: "GREEN = 0xFF00" by (simp add: GREEN_def Color_def)
lemma OFF_val: "OFF = 0" by (simp add: OFF_def Color_def)
lemma colours_distinct: "RED \<noteq> GREEN" "RED \<noteq> OFF" "GREEN \<noteq> OFF" "GREEN \<noteq> RED" "OFF \<noteq> RED" "OFF \<noteq> GREEN"
  by (simp_all add: RED_val GREEN_val OFF_val)

lemma fillStrip_loop_wf:
  "i \<le> NUM_LEDS \<Longrightarrow> numLEDs st = NUM_LEDS \<Longrightarrow> length (pixels st) = NUM_LEDS \<Longrightarrow>
   fillStrip_loop i st c = st\<lparr>pixels := take i (pixels st) @ replicate (NUM_LEDS - i) c\<rparr>"
proof (induction i st c rule: fillStrip_loop.induct)
  case (1 i st color)
  show ?case
  proof (cases "i < NUM_LEDS")
    case True
    let ?st = "setPixelColor i color st"
    have st': "?st = st\<lparr>pixels := (pixels st)[i := color]\<rparr>"
      using True 1 by (simp add: setPixelColor_def)
    have "fillStrip_loop (i + 1) ?st color =
          ?st\<lparr>pixels := take (i + 1) (pixels ?st) @ replicate (NUM_LEDS - (i + 1)) color\<rparr>"
      using True 1 by (intro "1.IH") (simp_all add: st')
    moreover have "take (i + 1) ((pixels st)[i := color]) = take i (pixels st) @ [color]"
      using True 1 by (simp add: take_Suc_conv_app_nth)
    moreover have "replicate (NUM_LEDS - i) color = color # replicate (NUM_LEDS - (i + 1)) color"
      using True by (cases "NUM_LEDS - i") auto
    ultimately show ?thesis
      using True by (subst fillStrip_loop.simps) (simp add: st')
  next
    case False
    with 1 show ?thesis by (subst fillStrip_loop.simps) simp
  qed
qed

lemma fillStrip_wf:
  "numLEDs st = NUM_LEDS \<Longrightarrow> length (pixels st) = NUM_LEDS \<Longrightarrow>
   fillStrip st c = st\<lparr>pixels := replicate NUM_LEDS c, shown := replicate NUM_LEDS c\<rparr>"
  by (simp add: fillStrip_def fillStrip_loop_wf show_strip_def)

lemma trim_all_space: "\<forall>c\<in>set l. isspace c \<Longrightarrow> trim l = []"
proof -
  assume a: "\<forall>c\<in>set l. isspace c"
  then have d: "dropWhile isspace l = []" by (induction l) simp_all
  show ?thesis by (simp only: trim_def d rev.simps dropWhile.simps)
qed

lemma trim_padded:
  assumes "\<forall>c\<in>set pre. isspace c" "\<forall>c\<in>set post. isspace c"
    and "v \<noteq> []" "\<not> isspace (hd v)" "\<not> isspace (last v)"
  shows "trim (pre @ v @ post) = v"
proof -
  have "dropWhile isspace (pre @ v @ post) = dropWhile isspace (v @ post)"
    using assms(1) by (simp add: dropWhile_append2)
  also have "\<dots> = v @ post"
    using assms(3,4) by (cases v) simp_all
  finally have front: "dropWhile isspace (pre @ v @ post) = v @ post" .
  have "dropWhile isspace (rev post @ rev v) = dropWhile isspace (rev v)"
    using assms(2) by (intro dropWhile_append2) simp
  also have "\<dots> = rev v"
    using assms(3,5) by (cases v rule: rev_cases) simp_all
  finally show ?thesis by (simp add: trim_def front)
qed

lemma isspace_of_char: "isspace c \<longleftrightarrow> (of_char c :: nat) \<in> {32, 9, 10, 11, 12, 13}"
proof -
  have e: "(c = d) = ((of_char c :: nat) = of_char d)" for d by simp
  show ?thesis unfolding isspace_def
    by (simp add: e [of "CHR 0x20"] e [of "CHR 0x09"] e [of "CHR 0x0A"]
        e [of "CHR 0x0B"] e [of "CHR 0x0C"] e [of "CHR 0x0D"])
qed

lemma isspace_tolower: "isspace (tolower c) = isspace c"
  by (auto simp: isspace_of_char tolower_def Let_def)


lemma c_str_text: "CHR 0x00 \<notin> set s \<Longrightarrow> c_str s = s"
  unfolding c_str_def by (induction s) auto

lemma c_str_words:
  "c_str ''pmd'' = ''pmd''" "c_str ''restafval'' = ''restafval''" "c_str ''rest'' = ''rest''"
  "c_str ''karton'' = ''karton''" "c_str ''off'' = ''off''" "c_str ''status'' = ''status''"
  "c_str [] = []"
  by (simp_all add: c_str_def)

lemma tolower_NUL: "tolower c = CHR 0x00 \<longleftrightarrow> c = CHR 0x00"
proof -
  have e: "(a = CHR 0x00) = ((of_char a :: nat) = 0)" for a
    using of_char_eq_iff [of a "CHR 0x00", where ?'a = nat] by simp
  show ?thesis
    by (auto simp: e tolower_def Let_def)
qed

lemma toLowerCase_text: "CHR 0x00 \<notin> set s \<Longrightarrow> toLowerCase s = map tolower s"
  unfolding toLowerCase_def c_str_def by (induction s) auto

lemma toLowerCase_NUL: "CHR 0x00 \<in> set s \<Longrightarrow> CHR 0x00 \<in> set (toLowerCase s)"
  unfolding toLowerCase_def c_str_def by (induction s) auto

lemma toLowerCase_word:
  assumes "toLowerCase v = t" "CHR 0x00 \<notin> set t"
  shows "CHR 0x00 \<notin> set v" and "map tolower v = t"
proof -
  show a: "CHR 0x00 \<notin> set v"
    using toLowerCase_NUL [of v] assms by auto
  show "map tolower v = t"
    using toLowerCase_text [OF a] assms(1) by simp
qed

lemma trim_subset: "set (trim l) \<subseteq> set l"
proof -
  have "set (dropWhile isspace (rev (dropWhile isspace l))) \<subseteq> set (rev (dropWhile isspace l))"
    by (rule set_dropWhileD [THEN subsetI])
  also have "\<dots> \<subseteq> set l"
    by (auto dest: set_dropWhileD)
  finally show ?thesis by (simp add: trim_def)
qed

text \<open>On a line without NUL bytes the comparison sees the whole normalised line.\<close>

lemma c_str_normalised:
  assumes "CHR 0x00 \<notin> set l"
  shows "c_str (toLowerCase (trim l)) = toLowerCase (trim l)"
proof -
  from assms trim_subset [of l] have t: "CHR 0x00 \<notin> set (trim l)" by auto
  have "CHR 0x00 \<notin> set (map tolower (trim l))"
  proof
    assume "CHR 0x00 \<in> set (map tolower (trim l))"
    then obtain x where "x \<in> set (trim l)" "tolower x = CHR 0x00" by auto
    with t show False by (simp add: tolower_NUL)
  qed
  then show ?thesis
    by (simp add: toLowerCase_text [OF t] c_str_text)
qed

lemma toLowerCase_ends:
  assumes "toLowerCase v = t" "CHR 0x00 \<notin> set t"
    and "t \<noteq> []" "\<not> isspace (hd t)" "\<not> isspace (last t)"
  shows "v \<noteq> [] \<and> \<not> isspace (hd v) \<and> \<not> isspace (last v)"
proof -
  note m = toLowerCase_word(2) [OF assms(1,2)]
  from m assms(3) have v: "v \<noteq> []" by auto
  with m have "hd t = tolower (hd v)" "last t = tolower (last v)"
    by (auto simp: hd_map last_map)
  with assms(4,5) v show ?thesis by (simp add: isspace_tolower)
qed

text \<open>
  \<open>wf_state\<close> holds when the globals are initialised; \<^verbatim>\<open>setup\<close>, \<^verbatim>\<open>handleSerial\<close>,
  \<^verbatim>\<open>showChoice\<close> and \<^verbatim>\<open>loop\<close> keep it (see below), so it holds in every state the
  sketch reaches.
\<close>

lemma wf_power_on: "wf_state (power_on rx)"
  by (simp add: wf_state_def wf_strip_def power_on_def Adafruit_NeoPixel_def)

subsection \<open>Rendering and clearing\<close>

lemma NUM_LEDS_pos: "0 < NUM_LEDS" by (simp add: NUM_LEDS_def)

lemma lit_unique: "lit st a \<Longrightarrow> lit st b \<Longrightarrow> a = b"
  using NUM_LEDS_pos by (cases NUM_LEDS) (auto simp: lit_def)

lemma wf_strip_fill: "wf_strip p st \<Longrightarrow> wf_strip p (fillStrip st c)"
  by (simp add: wf_strip_def fillStrip_wf)

lemma lit_fill: "wf_strip p st \<Longrightarrow> lit (fillStrip st c) c"
  by (simp add: wf_strip_def fillStrip_wf lit_def)

lemma fillStrip_same: "wf_strip p st \<Longrightarrow> wf_strip p st' \<Longrightarrow> fillStrip st c = fillStrip st' c"
  by (cases st, cases st') (simp add: wf_strip_def fillStrip_wf)

lemma wf_strip_clear: "wf_strip p st \<Longrightarrow> wf_strip p (show_strip (clear st))"
  by (simp add: wf_strip_def show_strip_def clear_def)

lemma lit_clear: "wf_strip p st \<Longrightarrow> lit (show_strip (clear st)) OFF"
  by (simp add: wf_strip_def show_strip_def clear_def lit_def OFF_val map_replicate_const)

lemma showChoice_frame:
  "currentChoice (showChoice c s) = currentChoice s"
  "serial_rx (showChoice c s) = serial_rx s"
  "serial_tx (showChoice c s) = serial_tx s"
  by (simp_all add: showChoice_def Let_def)

lemma wf_showChoice: "wf_state s \<Longrightarrow> wf_state (showChoice c s)"
  by (simp add: wf_state_def showChoice_def Let_def wf_strip_fill)

lemma showChoice_lit:
  assumes "wf_state s"
  shows "strips_lit (showChoice c s)
           (if c = NONE then OFF else if c = PMD then GREEN else RED)
           (if c = NONE then OFF else if c = REST then GREEN else RED)
           (if c = NONE then OFF else if c = KARTON then GREEN else RED)
           (if c = NONE then OFF else RED)"
  using assms by (cases c) (auto simp: strips_lit_def wf_state_def showChoice_def intro: lit_fill)

lemma showChoice_same:
  assumes "wf_state s" "wf_state s'"
  shows "strips (showChoice c s) = strips (showChoice c s')"
  using assms
  by (simp add: strips_def wf_state_def showChoice_def Let_def
      fillStrip_same [of PIN1 "strip1 s" "strip1 s'"] fillStrip_same [of PIN2 "strip2 s" "strip2 s'"]
      fillStrip_same [of PIN3 "strip3 s" "strip3 s'"] fillStrip_same [of PIN4 "strip4 s" "strip4 s'"])

lemma wf_clearAll: "wf_state s \<Longrightarrow> wf_state (clearAll s)"
  by (simp add: wf_state_def clearAll_def wf_strip_clear)

lemma clearAll_lit: "wf_state s \<Longrightarrow> strips_lit (clearAll s) OFF OFF OFF OFF"
  by (auto simp: wf_state_def clearAll_def strips_lit_def intro: lit_clear)

subsection \<open>Reading and dispatching one line\<close>

lemma read_frame:
  assumes "Serial_readStringUntil t s = (l, s1)"
  shows "strip1 s1 = strip1 s" "strip2 s1 = strip2 s" "strip3 s1 = strip3 s" "strip4 s1 = strip4 s"
    "currentChoice s1 = currentChoice s" "serial_tx s1 = serial_tx s"
  using assms by (auto simp: Serial_readStringUntil_def)

text \<open>A line followed by its terminator is read whole, and the terminator is dropped.\<close>

lemma read_line:
  assumes "serial_rx s = l @ CHR 0x0A # rest" "CHR 0x0A \<notin> set l"
  shows "Serial_available s \<noteq> 0"
    and "Serial_readStringUntil (CHR 0x0A) s = (l, s\<lparr>serial_rx := rest\<rparr>)"
proof -
  show "Serial_available s \<noteq> 0" using assms(1) by (simp add: Serial_available_def)
  have "takeWhile (\<lambda>c. c \<noteq> CHR 0x0A) (l @ CHR 0x0A # rest) = l"
    using assms(2) by (auto simp: takeWhile_tail)
  moreover have "dropWhile (\<lambda>c. c \<noteq> CHR 0x0A) (l @ CHR 0x0A # rest) = CHR 0x0A # rest"
    using assms(2) by (auto simp: dropWhile_append3)
  ultimately show "Serial_readStringUntil (CHR 0x0A) s = (l, s\<lparr>serial_rx := rest\<rparr>)"
    using assms(1) by (simp add: Serial_readStringUntil_def)
qed

lemma handleSerial_idle: "Serial_available s = 0 \<Longrightarrow> handleSerial s = s"
  by (simp add: handleSerial_def)

text \<open>
  The branches of \<^verbatim>\<open>handleSerial\<close>, by what the comparisons see: the trimmed,
  lower-cased line up to its first NUL byte.
\<close>

lemma dispatch_pmd:
  assumes "Serial_available s \<noteq> 0" "Serial_readStringUntil (CHR 0x0A) s = (l, s1)"
    and "c_str (toLowerCase (trim l)) = ''pmd''"
  shows "handleSerial s = s1\<lparr>currentChoice := PMD,
      serial_tx := serial_tx s @ ''OK: PMD geselecteerd (strip op pin 7 wordt GROEN).'' @ CRLF\<rparr>"
  using assms
  by (simp add: handleSerial_def String_equals_def c_str_words Serial_println_def CRLF_def read_frame)

lemma dispatch_rest:
  assumes "Serial_available s \<noteq> 0" "Serial_readStringUntil (CHR 0x0A) s = (l, s1)"
    and "c_str (toLowerCase (trim l)) = ''restafval'' \<or> c_str (toLowerCase (trim l)) = ''rest''"
  shows "handleSerial s = s1\<lparr>currentChoice := REST,
      serial_tx := serial_tx s @ ''OK: RESTAFVAL geselecteerd (strip op pin 4 wordt GROEN).'' @ CRLF\<rparr>"
  using assms
  by (auto simp: handleSerial_def String_equals_def c_str_words Serial_println_def CRLF_def read_frame)

lemma dispatch_karton:
  assumes "Serial_available s \<noteq> 0" "Serial_readStringUntil (CHR 0x0A) s = (l, s1)"
    and "c_str (toLowerCase (trim l)) = ''karton''"
  shows "handleSerial s = s1\<lparr>currentChoice := KARTON,
      serial_tx := serial_tx s @ ''OK: KARTON geselecteerd (strip op pin 5 wordt GROEN).'' @ CRLF\<rparr>"
  using assms
  by (simp add: handleSerial_def String_equals_def c_str_words Serial_println_def CRLF_def read_frame)

lemma dispatch_off:
  assumes "Serial_available s \<noteq> 0" "Serial_readStringUntil (CHR 0x0A) s = (l, s1)"
    and "c_str (toLowerCase (trim l)) = ''off''"
  shows "handleSerial s =
     (clearAll (s1\<lparr>currentChoice := NONE\<rparr>))\<lparr>serial_tx := serial_tx s @ ''OK: alles uit.'' @ CRLF\<rparr>"
  using assms
  by (simp add: handleSerial_def String_equals_def c_str_words Serial_println_def CRLF_def
      read_frame clearAll_def)

lemma dispatch_status:
  assumes "Serial_available s \<noteq> 0" "Serial_readStringUntil (CHR 0x0A) s = (l, s1)"
    and "c_str (toLowerCase (trim l)) = ''status''"
  shows "handleSerial s = s1\<lparr>serial_tx := serial_tx s @ ''Huidige keuze: '' @
      (case currentChoice s of NONE \<Rightarrow> ''NONE'' | PMD \<Rightarrow> ''PMD''
       | REST \<Rightarrow> ''RESTAFVAL'' | KARTON \<Rightarrow> ''KARTON'') @ CRLF\<rparr>"
  using assms
  by (cases "currentChoice s")
    (simp_all add: handleSerial_def String_equals_def c_str_words Serial_println_def
      Serial_print_def CRLF_def read_frame)

lemma dispatch_unknown:
  assumes "Serial_available s \<noteq> 0" "Serial_readStringUntil (CHR 0x0A) s = (l, s1)"
    and "c_str (toLowerCase (trim l)) \<notin>
      {''pmd'', ''restafval'', ''rest'', ''karton'', ''off'', ''status''}"
  shows "handleSerial s = s1\<lparr>serial_tx := serial_tx s @
      ''Onbekend commando. Gebruik: pmd | restafval | karton | status | off'' @ CRLF\<rparr>"
  using assms
  by (simp add: handleSerial_def String_equals_def c_str_words Serial_println_def CRLF_def read_frame)

text \<open>The same for a line that normalises to one of the words, whole.\<close>

lemma handleSerial_pmd:
  assumes "Serial_available s \<noteq> 0" "Serial_readStringUntil (CHR 0x0A) s = (l, s1)"
    and "toLowerCase (trim l) = ''pmd''"
  shows "handleSerial s = s1\<lparr>currentChoice := PMD,
      serial_tx := serial_tx s @ ''OK: PMD geselecteerd (strip op pin 7 wordt GROEN).'' @ CRLF\<rparr>"
  by (rule dispatch_pmd [OF assms(1,2)]) (simp add: assms(3) c_str_words)

lemma handleSerial_rest:
  assumes "Serial_available s \<noteq> 0" "Serial_readStringUntil (CHR 0x0A) s = (l, s1)"
    and "toLowerCase (trim l) = ''restafval'' \<or> toLowerCase (trim l) = ''rest''"
  shows "handleSerial s = s1\<lparr>currentChoice := REST,
      serial_tx := serial_tx s @ ''OK: RESTAFVAL geselecteerd (strip op pin 4 wordt GROEN).'' @ CRLF\<rparr>"
  using assms(3) by (intro dispatch_rest [OF assms(1,2)]) (auto simp: c_str_words)

lemma handleSerial_karton:
  assumes "Serial_available s \<noteq> 0" "Serial_readStringUntil (CHR 0x0A) s = (l, s1)"
    and "toLowerCase (trim l) = ''karton''"
  shows "handleSerial s = s1\<lparr>currentChoice := KARTON,
      serial_tx := serial_tx s @ ''OK: KARTON geselecteerd (strip op pin 5 wordt GROEN).'' @ CRLF\<rparr>"
  by (rule dispatch_karton [OF assms(1,2)]) (simp add: assms(3) c_str_words)

lemma handleSerial_off:
  assumes "Serial_available s \<noteq> 0" "Serial_readStringUntil (CHR 0x0A) s = (l, s1)"
    and "toLowerCase (trim l) = ''off''"
  shows "handleSerial s =
     (clearAll (s1\<lparr>currentChoice := NONE\<rparr>))\<lparr>serial_tx := serial_tx s @ ''OK: alles uit.'' @ CRLF\<rparr>"
  by (rule dispatch_off [OF assms(1,2)]) (simp add: assms(3) c_str_words)

lemma handleSerial_status:
  assumes "Serial_available s \<noteq> 0" "Serial_readStringUntil (CHR 0x0A) s = (l, s1)"
    and "toLowerCase (trim l) = ''status''"
  shows "handleSerial s = s1\<lparr>serial_tx := serial_tx s @ ''Huidige keuze: '' @
      (case currentChoice s of NONE \<Rightarrow> ''NONE'' | PMD \<Rightarrow> ''PMD''
       | REST \<Rightarrow> ''RESTAFVAL'' | KARTON \<Rightarrow> ''KARTON'') @ CRLF\<rparr>"
  by (rule dispatch_status [OF assms(1,2)]) (simp add: assms(3) c_str_words)

lemma wf_handleSerial: "wf_state s \<Longrightarrow> wf_state (handleSerial s)"
  by (auto simp: handleSerial_def Let_def Serial_println_def Serial_print_def
      Serial_readStringUntil_def wf_state_def clearAll_def intro: wf_strip_clear)

lemma wf_loop: "wf_state s \<Longrightarrow> wf_state (loop s)"
  by (simp add: loop_def Let_def wf_showChoice wf_handleSerial)

lemma wf_setup_sketch: "wf_state s \<Longrightarrow> wf_state (setup_sketch s)"
  using wf_clearAll [of s] by (simp add: setup_sketch_def Serial_println_def wf_state_def)

lemma loop_frame:
  "currentChoice (loop s) = currentChoice (handleSerial s)"
  "serial_rx (loop s) = serial_rx (handleSerial s)"
  "serial_tx (loop s) = serial_tx (handleSerial s)"
  by (simp_all add: loop_def Let_def showChoice_frame)

lemma vocabulary_ends:
  assumes "t \<in> {''pmd'', ''restafval'', ''rest'', ''karton'', ''off'', ''status''}"
  shows "CHR 0x00 \<notin> set t" and "t \<noteq> []" and "\<not> isspace (hd t)" and "\<not> isspace (last t)"
  using assms by (auto simp: isspace_def)

lemma variant_normalises:
  assumes "\<forall>c\<in>set pre. isspace c" "\<forall>c\<in>set post. isspace c"
    and "toLowerCase v = t"
    and "t \<in> {''pmd'', ''restafval'', ''rest'', ''karton'', ''off'', ''status''}"
  shows "toLowerCase (trim (pre @ v @ post)) = t"
proof -
  have "v \<noteq> [] \<and> \<not> isspace (hd v) \<and> \<not> isspace (last v)"
    by (rule toLowerCase_ends [OF assms(3) vocabulary_ends [OF assms(4)]])
  then have "trim (pre @ v @ post) = v"
    using assms(1,2) by (simp add: trim_padded)
  then show ?thesis using assms(3) by simp
qed

lemma vocabulary_lower:
  assumes "t \<in> {''pmd'', ''restafval'', ''rest'', ''karton'', ''off'', ''status''}"
  shows "toLowerCase (trim t) = t"
proof -
  have "toLowerCase t = t"
    using assms by (auto simp: toLowerCase_def c_str_def tolower_def)
  then show ?thesis
    using variant_normalises [of "[]" "[]" t t] assms by simp
qed

lemma handleSerial_same_command:
  assumes "Serial_available s \<noteq> 0" "Serial_readStringUntil (CHR 0x0A) s = (l, s1)"
    and "Serial_available u \<noteq> 0" "Serial_readStringUntil (CHR 0x0A) u = (l', s1)"
    and "toLowerCase (trim l) = toLowerCase (trim l')"
  shows "handleSerial s = handleSerial u"
  using assms by (simp add: handleSerial_def)

lemma lit_not: "lit st a \<Longrightarrow> a \<noteq> b \<Longrightarrow> \<not> lit st b"
  using lit_unique by blast

lemma showChoice_selected:
  assumes "wf_state s"
  shows "filter (\<lambda>x. lit x GREEN) (strips (showChoice c s)) =
     (case c of NONE \<Rightarrow> [] | PMD \<Rightarrow> [strip1 (showChoice c s)]
      | REST \<Rightarrow> [strip2 (showChoice c s)] | KARTON \<Rightarrow> [strip3 (showChoice c s)])"
proof -
  note l = showChoice_lit [OF assms, of c, unfolded strips_lit_def]
  show ?thesis
  proof (cases c)
    case NONE
    with l show ?thesis by (auto simp: strips_def dest: lit_not [where b = GREEN] simp: colours_distinct)
  next
    case PMD
    with l show ?thesis by (auto simp: strips_def dest: lit_not [where b = GREEN] simp: colours_distinct)
  next
    case REST
    with l show ?thesis by (auto simp: strips_def dest: lit_not [where b = GREEN] simp: colours_distinct)
  next
    case KARTON
    with l show ?thesis by (auto simp: strips_def dest: lit_not [where b = GREEN] simp: colours_distinct)
  qed
qed

lemma showChoice_pins:
  assumes "wf_state s"
  shows "pin (strip1 (showChoice c s)) = 7" "pin (strip2 (showChoice c s)) = 4"
    "pin (strip3 (showChoice c s)) = 5" "pin (strip4 (showChoice c s)) = 6"
  using wf_showChoice [OF assms, of c]
  by (simp_all add: wf_state_def wf_strip_def PIN1_def PIN2_def PIN3_def PIN4_def)

lemma loop_unfold: "loop s = showChoice (currentChoice (handleSerial s)) (handleSerial s)"
  by (simp add: loop_def Let_def)

lemma demo_state:
  "wf_state ((power_on rx)\<lparr>currentChoice := k\<rparr>)"
  "Serial_available ((power_on rx)\<lparr>currentChoice := k\<rparr>) = length rx"
  "Serial_readStringUntil t ((power_on rx)\<lparr>currentChoice := k\<rparr>) =
     (takeWhile (\<lambda>c. c \<noteq> t) rx,
      (power_on (drop 1 (dropWhile (\<lambda>c. c \<noteq> t) rx)))\<lparr>currentChoice := k\<rparr>)"
  using wf_power_on [of rx]
  by (simp_all add: wf_state_def Serial_available_def Serial_readStringUntil_def power_on_def)

lemma power_on_sel:
  "currentChoice (power_on rx) = NONE" "serial_rx (power_on rx) = rx" "serial_tx (power_on rx) = []"
  by (simp_all add: power_on_def)

lemma list_all_isspace: "list_all isspace xs \<longleftrightarrow> (\<forall>c\<in>set xs. isspace c)"
  by (simp add: list_all_iff)

lemma loop_lit:
  assumes "wf_state s"
  shows "strips_lit (loop s)
           (if currentChoice (loop s) = NONE then OFF
            else if currentChoice (loop s) = PMD then GREEN else RED)
           (if currentChoice (loop s) = NONE then OFF
            else if currentChoice (loop s) = REST then GREEN else RED)
           (if currentChoice (loop s) = NONE then OFF
            else if currentChoice (loop s) = KARTON then GREEN else RED)
           (if currentChoice (loop s) = NONE then OFF else RED)"
  unfolding loop_frame(1) unfolding loop_unfold
  by (rule showChoice_lit [OF wf_handleSerial [OF assms]])

lemma loop_strips:
  assumes "wf_state s" "wf_state s'"
  shows "strips (loop s) = strips (showChoice (currentChoice (loop s)) s')"
  unfolding loop_frame(1) unfolding loop_unfold
  by (rule showChoice_same [OF wf_handleSerial [OF assms(1)] assms(2)])

lemma decimal_digits: "decimal 7 = ''7''" "decimal 4 = ''4''" "decimal 5 = ''5''"
  by code_simp+

lemma loop_selected:
  assumes "wf_state s"
  shows "filter (\<lambda>x. lit x GREEN) (strips (loop s)) =
     (case currentChoice (handleSerial s) of NONE \<Rightarrow> [] | PMD \<Rightarrow> [strip1 (loop s)]
      | REST \<Rightarrow> [strip2 (loop s)] | KARTON \<Rightarrow> [strip3 (loop s)])"
  unfolding loop_unfold by (rule showChoice_selected [OF wf_handleSerial [OF assms]])

lemma loop_pins:
  assumes "wf_state s"
  shows "pin (strip1 (loop s)) = 7" "pin (strip2 (loop s)) = 4" "pin (strip3 (loop s)) = 5"
  unfolding loop_unfold by (rule showChoice_pins [OF wf_handleSerial [OF assms]])+


section \<open>The claims\<close>

subsection \<open>Rendering\<close>

text \<open>
  C1. \<^verbatim>\<open>showChoice\<close> gives each of the four strips a colour fixed by the selection
  alone: all four \<open>OFF\<close> for \<open>NONE\<close>; for a category, \<open>GREEN\<close> on the strip of that
  category (strip 1 for PMD, strip 2 for REST, strip 3 for KARTON) and \<open>RED\<close> on the
  other three. Whatever the state it starts from (earlier pixel contents, serial
  buffers, stored choice), the strips it leaves are the same.
\<close>

theorem showChoice_by_selection:
  assumes "wf_state s" and "wf_state s'"
  shows "strips_lit (showChoice NONE s) OFF OFF OFF OFF \<and>
         strips_lit (showChoice PMD s) GREEN RED RED RED \<and>
         strips_lit (showChoice REST s) RED GREEN RED RED \<and>
         strips_lit (showChoice KARTON s) RED RED GREEN RED \<and>
         strips (showChoice c s) = strips (showChoice c s')"
  using showChoice_lit [OF assms(1), of NONE] showChoice_lit [OF assms(1), of PMD]
    showChoice_lit [OF assms(1), of REST] showChoice_lit [OF assms(1), of KARTON]
    showChoice_same [OF assms]
  by simp

theorem showChoice_by_selection_witness:
  "wf_state (power_on []) \<and> wf_state (loop (power_on ''pmd'')) \<and>
   strips_lit (showChoice NONE (power_on [])) OFF OFF OFF OFF \<and>
   strips_lit (showChoice PMD (power_on [])) GREEN RED RED RED \<and>
   strips_lit (showChoice REST (power_on [])) RED GREEN RED RED \<and>
   strips_lit (showChoice KARTON (power_on [])) RED RED GREEN RED \<and>
   strips (showChoice KARTON (power_on [])) = strips (showChoice KARTON (loop (power_on ''pmd'')))"
proof -
  have a: "wf_state (power_on [])" by (rule wf_power_on)
  have b: "wf_state (loop (power_on ''pmd''))" by (rule wf_loop [OF wf_power_on])
  show ?thesis using showChoice_by_selection [OF a b, of KARTON] a b by simp
qed

text \<open>
  C7. The fourth strip has no category: \<^verbatim>\<open>showChoice\<close> never gives it \<open>GREEN\<close>; it
  gets \<open>OFF\<close> when the selection is \<open>NONE\<close> and \<open>RED\<close> for every category. For every
  category exactly one of the four strips is \<open>GREEN\<close> (and none is for \<open>NONE\<close>).
\<close>

theorem fourth_strip_never_selected:
  assumes "wf_state s"
  shows "\<not> lit (strip4 (showChoice c s)) GREEN \<and>
         lit (strip4 (showChoice c s)) (if c = NONE then OFF else RED) \<and>
         (c = NONE \<longrightarrow> filter (\<lambda>x. lit x GREEN) (strips (showChoice c s)) = []) \<and>
         (c \<noteq> NONE \<longrightarrow> length (filter (\<lambda>x. lit x GREEN) (strips (showChoice c s))) = 1)"
proof -
  have four: "lit (strip4 (showChoice c s)) (if c = NONE then OFF else RED)"
    using showChoice_lit [OF assms, of c] by (simp add: strips_lit_def)
  then have "\<not> lit (strip4 (showChoice c s)) GREEN"
    by (rule lit_not) (simp add: colours_distinct)
  moreover have "c = NONE \<longrightarrow> filter (\<lambda>x. lit x GREEN) (strips (showChoice c s)) = []"
    by (simp add: showChoice_selected [OF assms])
  moreover have "c \<noteq> NONE \<longrightarrow> length (filter (\<lambda>x. lit x GREEN) (strips (showChoice c s))) = 1"
    by (cases c) (simp_all add: showChoice_selected [OF assms])
  ultimately show ?thesis using four by blast
qed

theorem fourth_strip_never_selected_witness:
  "wf_state (power_on []) \<and>
   \<not> lit (strip4 (showChoice REST (power_on []))) GREEN \<and>
   lit (strip4 (showChoice REST (power_on []))) RED \<and>
   length (filter (\<lambda>x. lit x GREEN) (strips (showChoice REST (power_on [])))) = 1 \<and>
   lit (strip4 (showChoice NONE (power_on []))) OFF \<and>
   filter (\<lambda>x. lit x GREEN) (strips (showChoice NONE (power_on []))) = []"
proof -
  have a: "wf_state (power_on [])" by (rule wf_power_on)
  show ?thesis
    using fourth_strip_never_selected [OF a, of REST] fourth_strip_never_selected [OF a, of NONE] a
    by simp
qed

subsection \<open>Commands\<close>

text \<open>
  C3. A line that normalises to \<open>off\<close>, from any prior state, sets the choice to
  \<open>NONE\<close> and, inside \<^verbatim>\<open>handleSerial\<close> itself, leaves the four strips as \<^verbatim>\<open>clearAll\<close>
  does: every strip all \<open>OFF\<close> before the render pass of the same cycle runs, and still
  all \<open>OFF\<close> after it. The acknowledgement \<^verbatim>\<open>OK: alles uit.\<close> is written.
\<close>

theorem off_clears_immediately:
  assumes "wf_state s"
    and "Serial_available s \<noteq> 0" and "Serial_readStringUntil (CHR 0x0A) s = (l, s1)"
    and "toLowerCase (trim l) = ''off''"
  shows "currentChoice (handleSerial s) = NONE \<and>
         strips (handleSerial s) = strips (clearAll s) \<and>
         strips_lit (handleSerial s) OFF OFF OFF OFF \<and>
         strips_lit (loop s) OFF OFF OFF OFF \<and>
         serial_tx (handleSerial s) = serial_tx s @ ''OK: alles uit.'' @ CRLF"
proof -
  note h = handleSerial_off [OF assms(2-4)]
  have c: "currentChoice (handleSerial s) = NONE"
    by (simp add: h clearAll_def)
  have st: "strips (handleSerial s) = strips (clearAll s)"
    by (simp add: h clearAll_def strips_def read_frame [OF assms(3)])
  have "strips_lit (clearAll s) OFF OFF OFF OFF"
    by (rule clearAll_lit [OF assms(1)])
  with st have now: "strips_lit (handleSerial s) OFF OFF OFF OFF"
    by (simp add: strips_lit_def strips_def)
  have later: "strips_lit (loop s) OFF OFF OFF OFF"
    using showChoice_lit [OF wf_handleSerial [OF assms(1)], of NONE] c
    by (simp add: loop_unfold)
  have "serial_tx (handleSerial s) = serial_tx s @ ''OK: alles uit.'' @ CRLF"
    by (simp add: h)
  with c st now later show ?thesis by blast
qed

theorem off_clears_immediately_witness:
  "wf_state ((power_on '' OFF\<newline>'')\<lparr>currentChoice := REST\<rparr>) \<and>
   Serial_available ((power_on '' OFF\<newline>'')\<lparr>currentChoice := REST\<rparr>) \<noteq> 0 \<and>
   currentChoice (handleSerial ((power_on '' OFF\<newline>'')\<lparr>currentChoice := REST\<rparr>)) = NONE \<and>
   strips_lit (handleSerial ((power_on '' OFF\<newline>'')\<lparr>currentChoice := REST\<rparr>)) OFF OFF OFF OFF \<and>
   strips_lit (loop ((power_on '' OFF\<newline>'')\<lparr>currentChoice := REST\<rparr>)) OFF OFF OFF OFF"
proof -
  let ?q = "(power_on '' OFF\<newline>'')\<lparr>currentChoice := REST\<rparr>"
  have w: "wf_state ?q"
    using wf_power_on [of "'' OFF\<newline>''"] by (simp add: wf_state_def)
  have a: "Serial_available ?q \<noteq> 0"
    by (simp add: Serial_available_def power_on_def)
  have r: "Serial_readStringUntil (CHR 0x0A) ?q = ('' OFF'', (power_on [])\<lparr>currentChoice := REST\<rparr>)"
    by (simp add: Serial_readStringUntil_def power_on_def)
  have t: "toLowerCase (trim '' OFF'') = ''off''"
    by code_simp
  show ?thesis using off_clears_immediately [OF w a r t] w a by simp
qed

text \<open>
  C4. A line that \<^verbatim>\<open>handleSerial\<close> does not recognise, from any prior state: it only
  consumes the line and writes the \<^verbatim>\<open>Onbekend commando\<close> message; the choice and the
  strips stay as they were, and the cycle goes on to render the unchanged choice.
  The line is not recognised when the trimmed, lower-cased line, read up to its first
  NUL byte as the comparisons read it, is none of the six words; for a line without
  NUL bytes that is the trimmed, lower-cased line itself.
\<close>

theorem unknown_command_rejected:
  assumes "Serial_available s \<noteq> 0" and "Serial_readStringUntil (CHR 0x0A) s = (l, s1)"
    and "c_str (toLowerCase (trim l)) \<notin>
      {''pmd'', ''restafval'', ''rest'', ''karton'', ''off'', ''status''}"
  shows "handleSerial s = s1\<lparr>serial_tx := serial_tx s @
           ''Onbekend commando. Gebruik: pmd | restafval | karton | status | off'' @ CRLF\<rparr> \<and>
         currentChoice (handleSerial s) = currentChoice s \<and>
         strips (handleSerial s) = strips s \<and>
         loop s = showChoice (currentChoice s) (handleSerial s) \<and>
         currentChoice (loop s) = currentChoice s \<and>
         (CHR 0x00 \<notin> set l \<longrightarrow> c_str (toLowerCase (trim l)) = toLowerCase (trim l))"
proof -
  note h = dispatch_unknown [OF assms]
  have c: "currentChoice (handleSerial s) = currentChoice s"
    by (simp add: h read_frame [OF assms(2)])
  have "strips (handleSerial s) = strips s"
    by (simp add: h strips_def read_frame [OF assms(2)])
  with h c show ?thesis by (simp add: loop_unfold showChoice_frame c_str_normalised)
qed

theorem unknown_command_rejected_witness:
  "Serial_available ((power_on ''bananen\<newline>'')\<lparr>currentChoice := KARTON\<rparr>) \<noteq> 0 \<and>
   CHR 0x00 \<notin> set ''bananen'' \<and>
   toLowerCase (trim ''bananen'') = ''bananen'' \<and>
   currentChoice (handleSerial ((power_on ''bananen\<newline>'')\<lparr>currentChoice := KARTON\<rparr>)) = KARTON \<and>
   serial_tx (handleSerial ((power_on ''bananen\<newline>'')\<lparr>currentChoice := KARTON\<rparr>)) =
     ''Onbekend commando. Gebruik: pmd | restafval | karton | status | off'' @ CRLF \<and>
   currentChoice (loop ((power_on ''bananen\<newline>'')\<lparr>currentChoice := KARTON\<rparr>)) = KARTON"
proof -
  let ?q = "(power_on ''bananen\<newline>'')\<lparr>currentChoice := KARTON\<rparr>"
  have a: "Serial_available ?q \<noteq> 0"
    by (simp add: demo_state)
  have r: "Serial_readStringUntil (CHR 0x0A) ?q = (''bananen'', (power_on [])\<lparr>currentChoice := KARTON\<rparr>)"
    by (simp add: demo_state)
  have n: "toLowerCase (trim ''bananen'') = ''bananen''"
    by code_simp
  have z: "CHR 0x00 \<notin> set ''bananen''"
    by simp
  have "c_str (toLowerCase (trim ''bananen'')) = ''bananen''"
    by (simp add: n c_str_def)
  then have t: "c_str (toLowerCase (trim ''bananen'')) \<notin>
      {''pmd'', ''restafval'', ''rest'', ''karton'', ''off'', ''status''}"
    by simp
  note u = unknown_command_rejected [OF a r t]
  have c: "currentChoice (handleSerial ?q) = KARTON"
    using u [THEN conjunct2, THEN conjunct1] by simp
  have x: "serial_tx (handleSerial ?q) =
     ''Onbekend commando. Gebruik: pmd | restafval | karton | status | off'' @ CRLF"
    using u [THEN conjunct1] by (simp add: power_on_sel)
  have c': "currentChoice (loop ?q) = KARTON"
    using u [THEN conjunct2, THEN conjunct2, THEN conjunct2, THEN conjunct2, THEN conjunct1] by simp
  from a z n c x c' show ?thesis by (intro conjI)
qed

text \<open>
  C4 does not hold when every line that is not one of the six words after trimming
  and lower-casing counts as unrecognised. A word with a NUL byte behind it is such a
  line, and it is recognised: from choice REST, the bytes \<^verbatim>\<open>karton\<close>, NUL change the
  choice to KARTON.
\<close>

theorem unknown_command_rejected_counterexample:
  "Serial_readStringUntil (CHR 0x0A)
     ((power_on [CHR ''k'', CHR ''a'', CHR ''r'', CHR ''t'', CHR ''o'', CHR ''n'', CHR 0x00, CHR 0x0A])
        \<lparr>currentChoice := REST\<rparr>) =
     ([CHR ''k'', CHR ''a'', CHR ''r'', CHR ''t'', CHR ''o'', CHR ''n'', CHR 0x00],
      (power_on [])\<lparr>currentChoice := REST\<rparr>) \<and>
   toLowerCase (trim [CHR ''k'', CHR ''a'', CHR ''r'', CHR ''t'', CHR ''o'', CHR ''n'', CHR 0x00]) \<notin>
     {''pmd'', ''restafval'', ''rest'', ''karton'', ''off'', ''status''} \<and>
   currentChoice
     (handleSerial
       ((power_on [CHR ''k'', CHR ''a'', CHR ''r'', CHR ''t'', CHR ''o'', CHR ''n'', CHR 0x00, CHR 0x0A])
          \<lparr>currentChoice := REST\<rparr>)) = KARTON \<and>
   serial_tx
     (handleSerial
       ((power_on [CHR ''k'', CHR ''a'', CHR ''r'', CHR ''t'', CHR ''o'', CHR ''n'', CHR 0x00, CHR 0x0A])
          \<lparr>currentChoice := REST\<rparr>)) =
     ''OK: KARTON geselecteerd (strip op pin 5 wordt GROEN).'' @ CRLF"
proof -
  let ?l = "[CHR ''k'', CHR ''a'', CHR ''r'', CHR ''t'', CHR ''o'', CHR ''n'', CHR 0x00]"
  let ?q = "(power_on (?l @ [CHR 0x0A]))\<lparr>currentChoice := REST\<rparr>"
  have a: "Serial_available ?q \<noteq> 0"
    by (simp add: demo_state)
  have r: "Serial_readStringUntil (CHR 0x0A) ?q = (?l, (power_on [])\<lparr>currentChoice := REST\<rparr>)"
    by (simp add: demo_state)
  have n: "toLowerCase (trim ?l) = ?l"
    by code_simp
  have t: "c_str (toLowerCase (trim ?l)) = ''karton''"
    by (simp add: n c_str_def)
  note h = dispatch_karton [OF a r t]
  have c: "currentChoice (handleSerial ?q) = KARTON"
    using h by simp
  have x: "serial_tx (handleSerial ?q) = ''OK: KARTON geselecteerd (strip op pin 5 wordt GROEN).'' @ CRLF"
    using h by (simp add: power_on_sel)
  have m: "toLowerCase (trim ?l) \<notin> {''pmd'', ''restafval'', ''rest'', ''karton'', ''off'', ''status''}"
    by (simp add: n)
  from r m c x show ?thesis by simp
qed

text \<open>
  C5. A line that normalises to \<open>status\<close>, from any prior state, leaves the choice as
  it was and writes \<^verbatim>\<open>Huidige keuze: \<close> followed by the name of the current choice:
  \<^verbatim>\<open>PMD\<close>, \<^verbatim>\<open>RESTAFVAL\<close>, \<^verbatim>\<open>KARTON\<close> or \<^verbatim>\<open>NONE\<close>.
\<close>

theorem status_reports_choice:
  assumes "Serial_available s \<noteq> 0" and "Serial_readStringUntil (CHR 0x0A) s = (l, s1)"
    and "toLowerCase (trim l) = ''status''"
  shows "currentChoice (handleSerial s) = currentChoice s \<and>
         strips (handleSerial s) = strips s \<and>
         serial_tx (handleSerial s) = serial_tx s @ ''Huidige keuze: '' @
           (case currentChoice s of NONE \<Rightarrow> ''NONE'' | PMD \<Rightarrow> ''PMD''
            | REST \<Rightarrow> ''RESTAFVAL'' | KARTON \<Rightarrow> ''KARTON'') @ CRLF"
proof -
  note h = handleSerial_status [OF assms]
  have "currentChoice (handleSerial s) = currentChoice s"
    by (simp add: h read_frame [OF assms(2)])
  moreover have "strips (handleSerial s) = strips s"
    by (simp add: h strips_def read_frame [OF assms(2)])
  ultimately show ?thesis by (simp add: h)
qed

theorem status_reports_choice_witness:
  "Serial_available ((power_on ''Status\<newline>'')\<lparr>currentChoice := KARTON\<rparr>) \<noteq> 0 \<and>
   currentChoice (handleSerial ((power_on ''Status\<newline>'')\<lparr>currentChoice := KARTON\<rparr>)) = KARTON \<and>
   serial_tx (handleSerial ((power_on ''Status\<newline>'')\<lparr>currentChoice := KARTON\<rparr>)) =
     ''Huidige keuze: KARTON'' @ CRLF"
proof -
  let ?q = "(power_on ''Status\<newline>'')\<lparr>currentChoice := KARTON\<rparr>"
  have a: "Serial_available ?q \<noteq> 0"
    by (simp add: demo_state)
  have r: "Serial_readStringUntil (CHR 0x0A) ?q = (''Status'', (power_on [])\<lparr>currentChoice := KARTON\<rparr>)"
    by (simp add: demo_state)
  have t: "toLowerCase (trim ''Status'') = ''status''"
    by code_simp
  show ?thesis using status_reports_choice [OF a r t] a by (simp add: power_on_sel showChoice_frame)
qed

text \<open>
  C10. A line that is empty or all whitespace takes the final branch of
  \<^verbatim>\<open>handleSerial\<close>: it trims to the empty string, which is none of the six words, so
  the \<^verbatim>\<open>Onbekend commando\<close> message is written and the choice stays as it was.
\<close>

theorem blank_line_is_unknown:
  assumes "Serial_available s \<noteq> 0" and "Serial_readStringUntil (CHR 0x0A) s = (l, s1)"
    and "\<forall>c\<in>set l. isspace c"
  shows "toLowerCase (trim l) = [] \<and>
         handleSerial s = s1\<lparr>serial_tx := serial_tx s @
           ''Onbekend commando. Gebruik: pmd | restafval | karton | status | off'' @ CRLF\<rparr> \<and>
         currentChoice (handleSerial s) = currentChoice s \<and>
         strips (handleSerial s) = strips s"
proof -
  have e: "toLowerCase (trim l) = []"
    using trim_all_space [OF assms(3)] by (simp add: toLowerCase_def c_str_def)
  then have "c_str (toLowerCase (trim l)) \<notin>
      {''pmd'', ''restafval'', ''rest'', ''karton'', ''off'', ''status''}"
    by (simp add: c_str_words)
  note h = dispatch_unknown [OF assms(1,2) this]
  have "currentChoice (handleSerial s) = currentChoice s"
    by (simp add: h read_frame [OF assms(2)])
  moreover have "strips (handleSerial s) = strips s"
    by (simp add: h strips_def read_frame [OF assms(2)])
  ultimately show ?thesis using e h by simp
qed

theorem blank_line_is_unknown_witness:
  "Serial_available ((power_on ''\<newline>'')\<lparr>currentChoice := PMD\<rparr>) \<noteq> 0 \<and>
   currentChoice (handleSerial ((power_on ''\<newline>'')\<lparr>currentChoice := PMD\<rparr>)) = PMD \<and>
   serial_tx (handleSerial ((power_on ''\<newline>'')\<lparr>currentChoice := PMD\<rparr>)) =
     ''Onbekend commando. Gebruik: pmd | restafval | karton | status | off'' @ CRLF \<and>
   Serial_available ((power_on [CHR 0x20, CHR 0x09, CHR 0x0D, CHR 0x0A])\<lparr>currentChoice := PMD\<rparr>) \<noteq> 0 \<and>
   list_all isspace [CHR 0x20, CHR 0x09, CHR 0x0D] \<and>
   currentChoice (handleSerial ((power_on [CHR 0x20, CHR 0x09, CHR 0x0D, CHR 0x0A])\<lparr>currentChoice := PMD\<rparr>)) = PMD \<and>
   serial_tx (handleSerial ((power_on [CHR 0x20, CHR 0x09, CHR 0x0D, CHR 0x0A])\<lparr>currentChoice := PMD\<rparr>)) =
     ''Onbekend commando. Gebruik: pmd | restafval | karton | status | off'' @ CRLF"
proof -
  let ?q = "(power_on ''\<newline>'')\<lparr>currentChoice := PMD\<rparr>"
  let ?u = "(power_on [CHR 0x20, CHR 0x09, CHR 0x0D, CHR 0x0A])\<lparr>currentChoice := PMD\<rparr>"
  have a: "Serial_available ?q \<noteq> 0" and a': "Serial_available ?u \<noteq> 0"
    by (simp_all add: demo_state)
  have r: "Serial_readStringUntil (CHR 0x0A) ?q = ([], (power_on [])\<lparr>currentChoice := PMD\<rparr>)"
    by (simp add: demo_state)
  have r': "Serial_readStringUntil (CHR 0x0A) ?u =
      ([CHR 0x20, CHR 0x09, CHR 0x0D], (power_on [])\<lparr>currentChoice := PMD\<rparr>)"
    by (simp add: demo_state)
  have w: "\<forall>c\<in>set []. isspace c" and w': "\<forall>c\<in>set [CHR 0x20, CHR 0x09, CHR 0x0D]. isspace c"
    by (simp_all add: isspace_def)
  show ?thesis
    using blank_line_is_unknown [OF a r w] blank_line_is_unknown [OF a' r' w'] a a'
    by (simp add: power_on_sel showChoice_frame isspace_def)
qed

text \<open>
  C2. \<^verbatim>\<open>handleSerial\<close> trims the line, lower-cases it and then compares it, as a C
  string, with six words; what counts is the normalised line up to its first NUL
  byte. \<open>pmd\<close> selects PMD; \<open>restafval\<close> and \<open>rest\<close> both select REST, with the same
  acknowledgement; \<open>karton\<close> selects KARTON; \<open>off\<close> clears the selection and the strips;
  \<open>status\<close> reports the selection; everything else gets the \<^verbatim>\<open>Onbekend commando\<close>
  message. For a line without NUL bytes what is compared is the whole normalised line.
  A word written in any mix of upper and lower case, with whitespace before and after
  it, normalises to the word itself and is handled exactly as the word is.
\<close>

theorem command_vocabulary:
  assumes "Serial_available s \<noteq> 0" and "Serial_readStringUntil (CHR 0x0A) s = (l, s1)"
  shows
    "(c_str (toLowerCase (trim l)) = ''pmd'' \<longrightarrow>
        handleSerial s = s1\<lparr>currentChoice := PMD, serial_tx := serial_tx s @
          ''OK: PMD geselecteerd (strip op pin 7 wordt GROEN).'' @ CRLF\<rparr>) \<and>
     (c_str (toLowerCase (trim l)) \<in> {''restafval'', ''rest''} \<longrightarrow>
        handleSerial s = s1\<lparr>currentChoice := REST, serial_tx := serial_tx s @
          ''OK: RESTAFVAL geselecteerd (strip op pin 4 wordt GROEN).'' @ CRLF\<rparr>) \<and>
     (c_str (toLowerCase (trim l)) = ''karton'' \<longrightarrow>
        handleSerial s = s1\<lparr>currentChoice := KARTON, serial_tx := serial_tx s @
          ''OK: KARTON geselecteerd (strip op pin 5 wordt GROEN).'' @ CRLF\<rparr>) \<and>
     (c_str (toLowerCase (trim l)) = ''off'' \<longrightarrow>
        handleSerial s = (clearAll (s1\<lparr>currentChoice := NONE\<rparr>))
          \<lparr>serial_tx := serial_tx s @ ''OK: alles uit.'' @ CRLF\<rparr>) \<and>
     (c_str (toLowerCase (trim l)) = ''status'' \<longrightarrow>
        handleSerial s = s1\<lparr>serial_tx := serial_tx s @ ''Huidige keuze: '' @
          (case currentChoice s of NONE \<Rightarrow> ''NONE'' | PMD \<Rightarrow> ''PMD''
           | REST \<Rightarrow> ''RESTAFVAL'' | KARTON \<Rightarrow> ''KARTON'') @ CRLF\<rparr>) \<and>
     (c_str (toLowerCase (trim l)) \<notin>
          {''pmd'', ''restafval'', ''rest'', ''karton'', ''off'', ''status''} \<longrightarrow>
        handleSerial s = s1\<lparr>serial_tx := serial_tx s @
          ''Onbekend commando. Gebruik: pmd | restafval | karton | status | off'' @ CRLF\<rparr>) \<and>
     (CHR 0x00 \<notin> set l \<longrightarrow> c_str (toLowerCase (trim l)) = toLowerCase (trim l)) \<and>
     (\<forall>pre v post t u.
        l = pre @ v @ post \<and> list_all isspace pre \<and> list_all isspace post \<and>
        toLowerCase v = t \<and>
        t \<in> {''pmd'', ''restafval'', ''rest'', ''karton'', ''off'', ''status''} \<and>
        Serial_available u \<noteq> 0 \<and> Serial_readStringUntil (CHR 0x0A) u = (t, s1) \<longrightarrow>
        toLowerCase (trim l) = t \<and> handleSerial s = handleSerial u)"
proof -
  have pmd: "c_str (toLowerCase (trim l)) = ''pmd'' \<longrightarrow>
        handleSerial s = s1\<lparr>currentChoice := PMD, serial_tx := serial_tx s @
          ''OK: PMD geselecteerd (strip op pin 7 wordt GROEN).'' @ CRLF\<rparr>"
    by (intro impI dispatch_pmd [OF assms])
  have rest: "c_str (toLowerCase (trim l)) \<in> {''restafval'', ''rest''} \<longrightarrow>
        handleSerial s = s1\<lparr>currentChoice := REST, serial_tx := serial_tx s @
          ''OK: RESTAFVAL geselecteerd (strip op pin 4 wordt GROEN).'' @ CRLF\<rparr>"
    by (intro impI dispatch_rest [OF assms]) simp
  have karton: "c_str (toLowerCase (trim l)) = ''karton'' \<longrightarrow>
        handleSerial s = s1\<lparr>currentChoice := KARTON, serial_tx := serial_tx s @
          ''OK: KARTON geselecteerd (strip op pin 5 wordt GROEN).'' @ CRLF\<rparr>"
    by (intro impI dispatch_karton [OF assms])
  have off: "c_str (toLowerCase (trim l)) = ''off'' \<longrightarrow>
        handleSerial s = (clearAll (s1\<lparr>currentChoice := NONE\<rparr>))
          \<lparr>serial_tx := serial_tx s @ ''OK: alles uit.'' @ CRLF\<rparr>"
    by (intro impI dispatch_off [OF assms])
  have status: "c_str (toLowerCase (trim l)) = ''status'' \<longrightarrow>
        handleSerial s = s1\<lparr>serial_tx := serial_tx s @ ''Huidige keuze: '' @
          (case currentChoice s of NONE \<Rightarrow> ''NONE'' | PMD \<Rightarrow> ''PMD''
           | REST \<Rightarrow> ''RESTAFVAL'' | KARTON \<Rightarrow> ''KARTON'') @ CRLF\<rparr>"
    by (intro impI dispatch_status [OF assms])
  have unknown: "c_str (toLowerCase (trim l)) \<notin>
          {''pmd'', ''restafval'', ''rest'', ''karton'', ''off'', ''status''} \<longrightarrow>
        handleSerial s = s1\<lparr>serial_tx := serial_tx s @
          ''Onbekend commando. Gebruik: pmd | restafval | karton | status | off'' @ CRLF\<rparr>"
    by (intro impI dispatch_unknown [OF assms])
  have whole: "CHR 0x00 \<notin> set l \<longrightarrow> c_str (toLowerCase (trim l)) = toLowerCase (trim l)"
    by (intro impI c_str_normalised)
  have variants: "toLowerCase (trim l) = t \<and> handleSerial s = handleSerial u"
    if v: "l = pre @ v @ post" "list_all isspace pre" "list_all isspace post" "toLowerCase v = t"
      "t \<in> {''pmd'', ''restafval'', ''rest'', ''karton'', ''off'', ''status''}"
      "Serial_available u \<noteq> 0" "Serial_readStringUntil (CHR 0x0A) u = (t, s1)"
    for pre v post t u
  proof -
    have n: "toLowerCase (trim l) = t"
      using variant_normalises [of pre post v t] v(1-5) by (simp add: list_all_isspace)
    then have "toLowerCase (trim l) = toLowerCase (trim t)"
      by (simp add: vocabulary_lower [OF v(5)])
    from handleSerial_same_command [OF assms v(6,7) this] n show ?thesis by simp
  qed
  then have "\<forall>pre v post t u.
        l = pre @ v @ post \<and> list_all isspace pre \<and> list_all isspace post \<and>
        toLowerCase v = t \<and>
        t \<in> {''pmd'', ''restafval'', ''rest'', ''karton'', ''off'', ''status''} \<and>
        Serial_available u \<noteq> 0 \<and> Serial_readStringUntil (CHR 0x0A) u = (t, s1) \<longrightarrow>
        toLowerCase (trim l) = t \<and> handleSerial s = handleSerial u"
    by (intro allI impI) (elim conjE)
  with pmd rest karton off status unknown whole show ?thesis
    by (intro conjI)
qed

theorem command_vocabulary_witness:
  "Serial_available ((power_on ''  ReSt \<newline>'')\<lparr>currentChoice := PMD\<rparr>) \<noteq> 0 \<and>
   Serial_available ((power_on ''rest\<newline>'')\<lparr>currentChoice := PMD\<rparr>) \<noteq> 0 \<and>
   toLowerCase (trim ''  ReSt '') = ''rest'' \<and>
   handleSerial ((power_on ''  ReSt \<newline>'')\<lparr>currentChoice := PMD\<rparr>) =
     handleSerial ((power_on ''rest\<newline>'')\<lparr>currentChoice := PMD\<rparr>) \<and>
   handleSerial ((power_on ''  ReSt \<newline>'')\<lparr>currentChoice := PMD\<rparr>) =
     (power_on [])\<lparr>currentChoice := REST, serial_tx :=
        ''OK: RESTAFVAL geselecteerd (strip op pin 4 wordt GROEN).'' @ CRLF\<rparr>"
proof -
  let ?q = "(power_on ''  ReSt \<newline>'')\<lparr>currentChoice := PMD\<rparr>"
  let ?u = "(power_on ''rest\<newline>'')\<lparr>currentChoice := PMD\<rparr>"
  let ?r = "(power_on [])\<lparr>currentChoice := PMD\<rparr>"
  have a: "Serial_available ?q \<noteq> 0" and a': "Serial_available ?u \<noteq> 0"
    by (simp_all add: demo_state)
  have r: "Serial_readStringUntil (CHR 0x0A) ?q = (''  '' @ ''ReSt'' @ '' '', ?r)"
    by (simp add: demo_state)
  have r': "Serial_readStringUntil (CHR 0x0A) ?u = (''rest'', ?r)"
    by (simp add: demo_state)
  have t: "toLowerCase ''ReSt'' = ''rest''"
    by code_simp
  have z: "CHR 0x00 \<notin> set (''  '' @ ''ReSt'' @ '' '')"
    by simp
  note cv = command_vocabulary [OF a r]
  note sel = cv [THEN conjunct2, THEN conjunct1, rule_format]
  note whole = cv [THEN conjunct2, THEN conjunct2, THEN conjunct2, THEN conjunct2,
      THEN conjunct2, THEN conjunct2, THEN conjunct1, rule_format, OF z]
  note var = cv [THEN conjunct2, THEN conjunct2, THEN conjunct2, THEN conjunct2,
      THEN conjunct2, THEN conjunct2, THEN conjunct2, rule_format,
      of "''  ''" "''ReSt''" "'' ''" "''rest''" ?u]
  have sp: "list_all isspace ''  ''" "list_all isspace '' ''"
    by (simp_all add: isspace_def)
  have v: "toLowerCase (trim (''  '' @ ''ReSt'' @ '' '')) = ''rest''"
      "handleSerial ?q = handleSerial ?u"
    using var [OF conjI [OF refl conjI [OF sp(1) conjI [OF sp(2) conjI [OF t conjI [OF _ conjI [OF a' r']]]]]]]
    by simp_all
  have h: "handleSerial ?q = ?r\<lparr>currentChoice := REST, serial_tx := serial_tx ?q @
        ''OK: RESTAFVAL geselecteerd (strip op pin 4 wordt GROEN).'' @ CRLF\<rparr>"
    using v(1) whole by (intro sel) simp
  have n: "toLowerCase (trim ''  ReSt '') = ''rest''"
    using v(1) by simp
  have e: "handleSerial ?q = (power_on [])\<lparr>currentChoice := REST, serial_tx :=
        ''OK: RESTAFVAL geselecteerd (strip op pin 4 wordt GROEN).'' @ CRLF\<rparr>"
    by (simp add: h power_on_sel)
  from a a' n v(2) e show ?thesis by (intro conjI)
qed

text \<open>
  C2 does not hold of the whole trimmed, lower-cased line: not every line other than
  the six words goes to the error branch. The bytes \<^verbatim>\<open>pmd\<close>, NUL, \<^verbatim>\<open>x\<close> are another
  line, and they select PMD.
\<close>

theorem command_vocabulary_counterexample:
  "Serial_readStringUntil (CHR 0x0A)
     (power_on [CHR ''p'', CHR ''m'', CHR ''d'', CHR 0x00, CHR ''x'', CHR 0x0A]) =
     ([CHR ''p'', CHR ''m'', CHR ''d'', CHR 0x00, CHR ''x''], power_on []) \<and>
   toLowerCase (trim [CHR ''p'', CHR ''m'', CHR ''d'', CHR 0x00, CHR ''x'']) \<notin>
     {''pmd'', ''restafval'', ''rest'', ''karton'', ''off'', ''status''} \<and>
   handleSerial (power_on [CHR ''p'', CHR ''m'', CHR ''d'', CHR 0x00, CHR ''x'', CHR 0x0A]) =
     (power_on [])\<lparr>currentChoice := PMD, serial_tx :=
        ''OK: PMD geselecteerd (strip op pin 7 wordt GROEN).'' @ CRLF\<rparr>"
proof -
  let ?l = "[CHR ''p'', CHR ''m'', CHR ''d'', CHR 0x00, CHR ''x'']"
  let ?q = "power_on (?l @ [CHR 0x0A])"
  have a: "Serial_available ?q \<noteq> 0"
    by (simp add: Serial_available_def power_on_sel)
  have r: "Serial_readStringUntil (CHR 0x0A) ?q = (?l, power_on [])"
    by (simp add: Serial_readStringUntil_def power_on_def)
  have n: "toLowerCase (trim ?l) = ?l"
    by code_simp
  have t: "c_str (toLowerCase (trim ?l)) = ''pmd''"
    by (simp add: n c_str_def)
  have h: "handleSerial ?q = (power_on [])\<lparr>currentChoice := PMD, serial_tx :=
        ''OK: PMD geselecteerd (strip op pin 7 wordt GROEN).'' @ CRLF\<rparr>"
    using dispatch_pmd [OF a r t] by (simp add: power_on_sel)
  have m: "toLowerCase (trim ?l) \<notin> {''pmd'', ''restafval'', ''rest'', ''karton'', ''off'', ''status''}"
    by (simp add: n)
  from r m h show ?thesis by simp
qed

subsection \<open>The control loop\<close>

text \<open>
  C8. Every pass of \<^verbatim>\<open>loop\<close> ends by filling all four strips with the colours of the
  selection then current, whether or not input was read in that pass and whatever
  the pixels held before. The poll is \<^verbatim>\<open>Serial.available()\<close>, a count of received bytes:
  when no byte is waiting, \<^verbatim>\<open>handleSerial\<close> returns at once without touching the state,
  and the pass is just the render of the stored choice.
\<close>

theorem loop_always_renders:
  assumes "wf_state s"
  shows "loop s = showChoice (currentChoice (handleSerial s)) (handleSerial s) \<and>
         strips (loop s) = strips (showChoice (currentChoice (loop s)) s) \<and>
         strips_lit (loop s)
           (if currentChoice (loop s) = NONE then OFF
            else if currentChoice (loop s) = PMD then GREEN else RED)
           (if currentChoice (loop s) = NONE then OFF
            else if currentChoice (loop s) = REST then GREEN else RED)
           (if currentChoice (loop s) = NONE then OFF
            else if currentChoice (loop s) = KARTON then GREEN else RED)
           (if currentChoice (loop s) = NONE then OFF else RED) \<and>
         (Serial_available s = 0 \<longrightarrow>
            handleSerial s = s \<and> loop s = showChoice (currentChoice s) s)"
proof -
  have "Serial_available s = 0 \<longrightarrow> handleSerial s = s \<and> loop s = showChoice (currentChoice s) s"
    by (simp add: loop_unfold handleSerial_idle)
  with loop_unfold [of s] loop_strips [OF assms assms] loop_lit [OF assms]
  show ?thesis by (intro conjI)
qed

theorem loop_always_renders_witness:
  "wf_state ((power_on [])\<lparr>currentChoice := KARTON\<rparr>) \<and>
   Serial_available ((power_on [])\<lparr>currentChoice := KARTON\<rparr>) = 0 \<and>
   loop ((power_on [])\<lparr>currentChoice := KARTON\<rparr>) =
     showChoice KARTON ((power_on [])\<lparr>currentChoice := KARTON\<rparr>) \<and>
   strips_lit (loop ((power_on [])\<lparr>currentChoice := KARTON\<rparr>)) RED RED GREEN RED"
proof -
  let ?q = "(power_on [])\<lparr>currentChoice := KARTON\<rparr>"
  have w: "wf_state ?q" by (rule demo_state)
  have a: "Serial_available ?q = 0" by (simp add: demo_state)
  from loop_always_renders [OF w] a
  have l: "loop ?q = showChoice KARTON ?q" by simp
  then have c: "currentChoice (loop ?q) = KARTON" by (simp add: showChoice_frame)
  from loop_always_renders [OF w] have "strips_lit (loop ?q)
           (if currentChoice (loop ?q) = NONE then OFF
            else if currentChoice (loop ?q) = PMD then GREEN else RED)
           (if currentChoice (loop ?q) = NONE then OFF
            else if currentChoice (loop ?q) = REST then GREEN else RED)
           (if currentChoice (loop ?q) = NONE then OFF
            else if currentChoice (loop ?q) = KARTON then GREEN else RED)
           (if currentChoice (loop ?q) = NONE then OFF else RED)"
    by (elim conjE)
  then have "strips_lit (loop ?q) RED RED GREEN RED" by (simp add: c)
  with w a l show ?thesis by simp
qed

text \<open>
  C8 does not hold with "no line is waiting" in place of "no byte is waiting". Bytes
  without a terminator are no line, yet \<^verbatim>\<open>handleSerial\<close> reads them (the read ends at
  its timeout) and handles them as one: with \<^verbatim>\<open>pm\<close> waiting, the pass answers
  \<^verbatim>\<open>Onbekend commando\<close> and empties the buffer before it renders.
\<close>

theorem loop_always_renders_counterexample:
  "wf_state ((power_on ''pm'')\<lparr>currentChoice := KARTON\<rparr>) \<and>
   CHR 0x0A \<notin> set (serial_rx ((power_on ''pm'')\<lparr>currentChoice := KARTON\<rparr>)) \<and>
   handleSerial ((power_on ''pm'')\<lparr>currentChoice := KARTON\<rparr>) \<noteq>
     (power_on ''pm'')\<lparr>currentChoice := KARTON\<rparr> \<and>
   loop ((power_on ''pm'')\<lparr>currentChoice := KARTON\<rparr>) \<noteq>
     showChoice KARTON ((power_on ''pm'')\<lparr>currentChoice := KARTON\<rparr>) \<and>
   serial_rx (loop ((power_on ''pm'')\<lparr>currentChoice := KARTON\<rparr>)) = [] \<and>
   serial_tx (loop ((power_on ''pm'')\<lparr>currentChoice := KARTON\<rparr>)) =
     ''Onbekend commando. Gebruik: pmd | restafval | karton | status | off'' @ CRLF"
proof -
  let ?q = "(power_on ''pm'')\<lparr>currentChoice := KARTON\<rparr>"
  have w: "wf_state ?q" by (rule demo_state)
  have a: "Serial_available ?q \<noteq> 0"
    by (simp add: demo_state)
  have r: "Serial_readStringUntil (CHR 0x0A) ?q = (''pm'', (power_on [])\<lparr>currentChoice := KARTON\<rparr>)"
    by (simp add: demo_state)
  have n: "toLowerCase (trim ''pm'') = ''pm''"
    by code_simp
  have t: "c_str (toLowerCase (trim ''pm'')) \<notin>
      {''pmd'', ''restafval'', ''rest'', ''karton'', ''off'', ''status''}"
    by (simp add: n c_str_def)
  note h = dispatch_unknown [OF a r t]
  have x: "serial_tx (handleSerial ?q) =
      ''Onbekend commando. Gebruik: pmd | restafval | karton | status | off'' @ CRLF"
    by (simp add: h power_on_sel)
  have rx: "serial_rx (handleSerial ?q) = []"
    by (simp add: h power_on_sel)
  have nl: "CHR 0x0A \<notin> set (serial_rx ?q)"
    by (simp add: power_on_sel)
  have "serial_tx (handleSerial ?q) \<noteq> serial_tx ?q"
    by (simp add: x power_on_sel CRLF_def)
  then have d: "handleSerial ?q \<noteq> ?q"
    by auto
  have "serial_tx (loop ?q) \<noteq> serial_tx (showChoice KARTON ?q)"
    by (simp add: loop_frame showChoice_frame x power_on_sel CRLF_def)
  then have d': "loop ?q \<noteq> showChoice KARTON ?q"
    by auto
  have rx': "serial_rx (loop ?q) = []"
    by (simp add: loop_frame rx)
  have x': "serial_tx (loop ?q) =
      ''Onbekend commando. Gebruik: pmd | restafval | karton | status | off'' @ CRLF"
    by (simp add: loop_frame x)
  from w nl d d' rx' x' show ?thesis by (intro conjI)
qed

text \<open>
  C6. A line that selects a category sets the choice to that category whatever it was
  before, and writes the acknowledgement of that category. When the next line
  selects the same category again (by the same word or by its synonym), the choice
  and the strips after the second pass are those after the first, and the
  acknowledgement is written once more.
\<close>

theorem select_idempotent:
  assumes "wf_state s"
    and "Serial_available s \<noteq> 0" and "Serial_readStringUntil (CHR 0x0A) s = (l, s1)"
    and "Serial_available (loop s) \<noteq> 0" and "Serial_readStringUntil (CHR 0x0A) (loop s) = (l', s2)"
    and "k = PMD \<and> words = {''pmd''} \<and>
           ack = ''OK: PMD geselecteerd (strip op pin 7 wordt GROEN).'' \<or>
         k = REST \<and> words = {''restafval'', ''rest''} \<and>
           ack = ''OK: RESTAFVAL geselecteerd (strip op pin 4 wordt GROEN).'' \<or>
         k = KARTON \<and> words = {''karton''} \<and>
           ack = ''OK: KARTON geselecteerd (strip op pin 5 wordt GROEN).''"
    and "toLowerCase (trim l) \<in> words" and "toLowerCase (trim l') \<in> words"
  shows "currentChoice (loop s) = k \<and>
         serial_tx (loop s) = serial_tx s @ ack @ CRLF \<and>
         currentChoice (loop (loop s)) = currentChoice (loop s) \<and>
         strips (loop (loop s)) = strips (loop s) \<and>
         serial_tx (loop (loop s)) = serial_tx (loop s) @ ack @ CRLF"
proof -
  have step: "currentChoice (loop x) = k \<and> serial_tx (loop x) = serial_tx x @ ack @ CRLF"
    if x: "Serial_available x \<noteq> 0" "Serial_readStringUntil (CHR 0x0A) x = (m, x1)"
      "toLowerCase (trim m) \<in> words" for x m x1
    using assms(6)
  proof (elim disjE conjE)
    assume k: "k = PMD" "words = {''pmd''}"
      "ack = ''OK: PMD geselecteerd (strip op pin 7 wordt GROEN).''"
    from x(3) k(2) have "toLowerCase (trim m) = ''pmd''" by simp
    from handleSerial_pmd [OF x(1,2) this] show ?thesis
      unfolding loop_frame k(1,3) by (simp add: read_frame [OF x(2)])
  next
    assume k: "k = REST" "words = {''restafval'', ''rest''}"
      "ack = ''OK: RESTAFVAL geselecteerd (strip op pin 4 wordt GROEN).''"
    from x(3) k(2) have "toLowerCase (trim m) = ''restafval'' \<or> toLowerCase (trim m) = ''rest''"
      by simp
    from handleSerial_rest [OF x(1,2) this] show ?thesis
      unfolding loop_frame k(1,3) by (simp add: read_frame [OF x(2)])
  next
    assume k: "k = KARTON" "words = {''karton''}"
      "ack = ''OK: KARTON geselecteerd (strip op pin 5 wordt GROEN).''"
    from x(3) k(2) have "toLowerCase (trim m) = ''karton''" by simp
    from handleSerial_karton [OF x(1,2) this] show ?thesis
      unfolding loop_frame k(1,3) by (simp add: read_frame [OF x(2)])
  qed
  note first = step [OF assms(2,3,7)]
  note second = step [OF assms(4,5,8)]
  have w: "wf_state (loop s)" by (rule wf_loop [OF assms(1)])
  have "strips (loop (loop s)) = strips (showChoice (currentChoice (loop (loop s))) s)"
    by (rule loop_strips [OF w assms(1)])
  moreover have "strips (loop s) = strips (showChoice (currentChoice (loop s)) s)"
    by (rule loop_strips [OF assms(1) assms(1)])
  ultimately have "strips (loop (loop s)) = strips (loop s)"
    by (simp only: first [THEN conjunct1] second [THEN conjunct1])
  with first second show ?thesis by (simp only: simp_thms)
qed

theorem select_idempotent_witness:
  "wf_state (power_on ''rest\<newline>RESTAFVAL\<newline>'') \<and>
   Serial_available (power_on ''rest\<newline>RESTAFVAL\<newline>'') \<noteq> 0 \<and>
   Serial_available (loop (power_on ''rest\<newline>RESTAFVAL\<newline>'')) \<noteq> 0 \<and>
   currentChoice (loop (power_on ''rest\<newline>RESTAFVAL\<newline>'')) = REST \<and>
   currentChoice (loop (loop (power_on ''rest\<newline>RESTAFVAL\<newline>''))) = REST \<and>
   strips (loop (loop (power_on ''rest\<newline>RESTAFVAL\<newline>''))) =
     strips (loop (power_on ''rest\<newline>RESTAFVAL\<newline>'')) \<and>
   serial_tx (loop (loop (power_on ''rest\<newline>RESTAFVAL\<newline>''))) =
     ''OK: RESTAFVAL geselecteerd (strip op pin 4 wordt GROEN).'' @ CRLF @
     ''OK: RESTAFVAL geselecteerd (strip op pin 4 wordt GROEN).'' @ CRLF"
proof -
  let ?q = "power_on ''rest\<newline>RESTAFVAL\<newline>''"
  have w: "wf_state ?q" by (rule wf_power_on)
  have a: "Serial_available ?q \<noteq> 0"
    by (simp add: Serial_available_def power_on_sel)
  have r: "Serial_readStringUntil (CHR 0x0A) ?q = (''rest'', power_on ''RESTAFVAL\<newline>'')"
    by (simp add: Serial_readStringUntil_def power_on_def)
  have t: "toLowerCase (trim ''rest'') \<in> {''restafval'', ''rest''}"
    by (simp add: vocabulary_lower)
  have "handleSerial ?q = (power_on ''RESTAFVAL\<newline>'')\<lparr>currentChoice := REST, serial_tx :=
      serial_tx ?q @ ''OK: RESTAFVAL geselecteerd (strip op pin 4 wordt GROEN).'' @ CRLF\<rparr>"
    using t by (intro handleSerial_rest [OF a r]) simp
  then have rx: "serial_rx (loop ?q) = ''RESTAFVAL\<newline>''"
    by (simp add: loop_frame power_on_sel)
  have a2: "Serial_available (loop ?q) \<noteq> 0"
    by (simp add: Serial_available_def rx)
  have r2: "Serial_readStringUntil (CHR 0x0A) (loop ?q) = (''RESTAFVAL'', (loop ?q)\<lparr>serial_rx := []\<rparr>)"
    by (simp add: Serial_readStringUntil_def rx)
  have "toLowerCase (trim ''RESTAFVAL'') = ''restafval''"
    by code_simp
  then have t2: "toLowerCase (trim ''RESTAFVAL'') \<in> {''restafval'', ''rest''}"
    by simp
  note si = select_idempotent [OF w a r a2 r2 disjI2 [OF disjI1 [OF conjI [OF refl conjI [OF refl refl]]]] t t2]
  note c1 = si [THEN conjunct1]
  note x1 = si [THEN conjunct2, THEN conjunct1]
  note c2 = si [THEN conjunct2, THEN conjunct2, THEN conjunct1]
  note st = si [THEN conjunct2, THEN conjunct2, THEN conjunct2, THEN conjunct1]
  note x2 = si [THEN conjunct2, THEN conjunct2, THEN conjunct2, THEN conjunct2]
  have c2': "currentChoice (loop (loop ?q)) = REST"
    by (simp only: c2 c1)
  have x2': "serial_tx (loop (loop ?q)) =
     ''OK: RESTAFVAL geselecteerd (strip op pin 4 wordt GROEN).'' @ CRLF @
     ''OK: RESTAFVAL geselecteerd (strip op pin 4 wordt GROEN).'' @ CRLF"
    by (simp only: x2 x1 power_on_sel append_Nil append_assoc)
  from w a a2 c1 c2' st x2' show ?thesis by (intro conjI)
qed

subsection \<open>Acknowledgements and pins\<close>

text \<open>
  C9. After a line that selects a category, the pass of \<^verbatim>\<open>loop\<close> leaves exactly one
  strip \<open>GREEN\<close>, and the acknowledgement written names that strip's pin in decimal:
  strip 1 on pin 7 for PMD, strip 2 on pin 4 for REST, strip 3 on pin 5 for KARTON.
\<close>

theorem ack_names_green_pin:
  assumes "wf_state s"
    and "Serial_available s \<noteq> 0" and "Serial_readStringUntil (CHR 0x0A) s = (l, s1)"
    and "toLowerCase (trim l) = ''pmd'' \<and> name = ''PMD'' \<and> st = strip1 (loop s) \<and> p = 7 \<or>
         toLowerCase (trim l) \<in> {''restafval'', ''rest''} \<and> name = ''RESTAFVAL'' \<and>
           st = strip2 (loop s) \<and> p = 4 \<or>
         toLowerCase (trim l) = ''karton'' \<and> name = ''KARTON'' \<and> st = strip3 (loop s) \<and> p = 5"
  shows "filter (\<lambda>x. lit x GREEN) (strips (loop s)) = [st] \<and> pin st = p \<and>
         serial_tx (loop s) = serial_tx s @ ''OK: '' @ name @
           '' geselecteerd (strip op pin '' @ decimal (pin st) @ '' wordt GROEN).'' @ CRLF"
  using assms(4)
proof (elim disjE conjE)
  assume k: "toLowerCase (trim l) = ''pmd''" "name = ''PMD''" "st = strip1 (loop s)" "p = 7"
  note h = handleSerial_pmd [OF assms(2,3) k(1)]
  have "filter (\<lambda>x. lit x GREEN) (strips (loop s)) = [st]"
    by (simp add: loop_selected [OF assms(1)] h k(3))
  moreover have "pin st = p"
    by (simp only: k(3,4) loop_pins [OF assms(1)])
  moreover have "serial_tx (loop s) = serial_tx s @ ''OK: '' @ name @
      '' geselecteerd (strip op pin '' @ decimal (pin st) @ '' wordt GROEN).'' @ CRLF"
    unfolding loop_frame k(2,3) loop_pins [OF assms(1)] decimal_digits by (simp add: h)
  ultimately show ?thesis by (intro conjI)
next
  assume k: "toLowerCase (trim l) \<in> {''restafval'', ''rest''}" "name = ''RESTAFVAL''"
    "st = strip2 (loop s)" "p = 4"
  from k(1) have "toLowerCase (trim l) = ''restafval'' \<or> toLowerCase (trim l) = ''rest''"
    by simp
  note h = handleSerial_rest [OF assms(2,3) this]
  have "filter (\<lambda>x. lit x GREEN) (strips (loop s)) = [st]"
    by (simp add: loop_selected [OF assms(1)] h k(3))
  moreover have "pin st = p"
    by (simp only: k(3,4) loop_pins [OF assms(1)])
  moreover have "serial_tx (loop s) = serial_tx s @ ''OK: '' @ name @
      '' geselecteerd (strip op pin '' @ decimal (pin st) @ '' wordt GROEN).'' @ CRLF"
    unfolding loop_frame k(2,3) loop_pins [OF assms(1)] decimal_digits by (simp add: h)
  ultimately show ?thesis by (intro conjI)
next
  assume k: "toLowerCase (trim l) = ''karton''" "name = ''KARTON''" "st = strip3 (loop s)" "p = 5"
  note h = handleSerial_karton [OF assms(2,3) k(1)]
  have "filter (\<lambda>x. lit x GREEN) (strips (loop s)) = [st]"
    by (simp add: loop_selected [OF assms(1)] h k(3))
  moreover have "pin st = p"
    by (simp only: k(3,4) loop_pins [OF assms(1)])
  moreover have "serial_tx (loop s) = serial_tx s @ ''OK: '' @ name @
      '' geselecteerd (strip op pin '' @ decimal (pin st) @ '' wordt GROEN).'' @ CRLF"
    unfolding loop_frame k(2,3) loop_pins [OF assms(1)] decimal_digits by (simp add: h)
  ultimately show ?thesis by (intro conjI)
qed

theorem ack_names_green_pin_witness:
  "wf_state ((power_on ''KARTON\<newline>'')\<lparr>currentChoice := PMD\<rparr>) \<and>
   Serial_available ((power_on ''KARTON\<newline>'')\<lparr>currentChoice := PMD\<rparr>) \<noteq> 0 \<and>
   toLowerCase (trim ''KARTON'') = ''karton'' \<and>
   filter (\<lambda>x. lit x GREEN) (strips (loop ((power_on ''KARTON\<newline>'')\<lparr>currentChoice := PMD\<rparr>))) =
     [strip3 (loop ((power_on ''KARTON\<newline>'')\<lparr>currentChoice := PMD\<rparr>))] \<and>
   pin (strip3 (loop ((power_on ''KARTON\<newline>'')\<lparr>currentChoice := PMD\<rparr>))) = 5 \<and>
   serial_tx (loop ((power_on ''KARTON\<newline>'')\<lparr>currentChoice := PMD\<rparr>)) =
     ''OK: KARTON geselecteerd (strip op pin 5 wordt GROEN).'' @ CRLF"
proof -
  let ?q = "(power_on ''KARTON\<newline>'')\<lparr>currentChoice := PMD\<rparr>"
  have w: "wf_state ?q" by (rule demo_state)
  have a: "Serial_available ?q \<noteq> 0"
    by (simp add: demo_state)
  have r: "Serial_readStringUntil (CHR 0x0A) ?q = (''KARTON'', (power_on [])\<lparr>currentChoice := PMD\<rparr>)"
    by (simp add: demo_state)
  have t: "toLowerCase (trim ''KARTON'') = ''karton''"
    by code_simp
  note ag = ack_names_green_pin [OF w a r disjI2 [OF disjI2 [OF conjI [OF t conjI [OF refl conjI [OF refl refl]]]]]]
  note f = ag [THEN conjunct1]
  note p = ag [THEN conjunct2, THEN conjunct1]
  note x = ag [THEN conjunct2, THEN conjunct2]
  have x': "serial_tx (loop ?q) = ''OK: KARTON geselecteerd (strip op pin 5 wordt GROEN).'' @ CRLF"
    unfolding x p decimal_digits by (simp add: power_on_sel)
  from w a t f p x' show ?thesis by (intro conjI)
qed

end
